theory Spec2Isabelle
  imports Main "HOL-Library.Word"
begin

section \<open>Bytes, slices and Python errors\<close>

text \<open>
  A Python \<open>bytes\<close> object is a list of 8-bit words. The exceptions that the decoding
  code can raise are values of \<open>py_error\<close>; a function that can raise returns
  \<open>py_error + 'a\<close> with \<open>Inl\<close> for the exception.
\<close>

type_synonym byte = "8 word"

datatype py_error = ValueError | IndexError

text \<open>Python's \<open>xs[a:b]\<close> for \<open>0 \<le> a\<close>: both ends are clipped to the length.\<close>

definition slice :: "'a list \<Rightarrow> nat \<Rightarrow> nat \<Rightarrow> 'a list" where
  "slice xs a b = take (b - a) (drop a xs)"

section \<open>dol\_png.py: the PS2 palette reformat\<close>

text \<open>
  \<^verbatim>\<open>
  def ps2_palette_reformat(self, pal, s=4):
      p = bytearray(pal)
      for i in range(len(p)):
          r = i % (0x20 * s)
          if 0x10 * s <= r < 0x18 * s:
              p[i], p[i - 0x08 * s] = p[i - 0x08 * s], p[i]
      return bytes(p)
  \<close>
  The tuple assignment evaluates both right-hand values first, then stores into
  \<open>p[i]\<close> and then into \<open>p[i - 0x08 * s]\<close>. Whenever the condition holds,
  \<open>0x10 * s \<le> i\<close>, so the second index is never negative and both are in range.
  The only caller passes no \<open>s\<close>, so \<open>s\<close> is the default 4
  (\<open>ps2_palette_reformat\<close>); Python would raise on \<open>s = 0\<close>, which no call passes.
\<close>

definition swap_step :: "nat \<Rightarrow> byte list \<Rightarrow> nat \<Rightarrow> byte list" where
  "swap_step s p i =
     (let r = i mod (0x20 * s) in
      if 0x10 * s \<le> r \<and> r < 0x18 * s
      then p[i := p ! (i - 0x08 * s), i - 0x08 * s := p ! i]
      else p)"

definition ps2_palette_reformat_s :: "nat \<Rightarrow> byte list \<Rightarrow> byte list" where
  "ps2_palette_reformat_s s pal = foldl (swap_step s) pal [0..<length pal]"

definition ps2_palette_reformat :: "byte list \<Rightarrow> byte list" where
  "ps2_palette_reformat pal = ps2_palette_reformat_s 4 pal"

text \<open>
  The permutation in the words of the specification: inside each 128-byte block the
  bytes at block offsets 64..95 trade places with the bytes 32 positions earlier; a
  byte at block offset 32..63 whose partner lies beyond the end of the buffer stays.
\<close>

definition swizzle_source :: "nat \<Rightarrow> nat \<Rightarrow> nat" where
  "swizzle_source n j =
     (if 64 \<le> j mod 128 \<and> j mod 128 < 96 then j - 32
      else if 32 \<le> j mod 128 \<and> j mod 128 < 64 \<and> j + 32 < n then j + 32
      else j)"

definition swizzle_spec :: "byte list \<Rightarrow> byte list" where
  "swizzle_spec pal = map (\<lambda>j. pal ! swizzle_source (length pal) j) [0..<length pal]"


text \<open>Block offsets 64..95 (\<open>upper_bank\<close>) and 32..63 (\<open>lower_bank\<close>) of a 128-byte block.\<close>

definition upper_bank :: "nat \<Rightarrow> bool" where
  "upper_bank j \<longleftrightarrow> 64 \<le> j mod 128 \<and> j mod 128 < 96"

definition lower_bank :: "nat \<Rightarrow> bool" where
  "lower_bank j \<longleftrightarrow> 32 \<le> j mod 128 \<and> j mod 128 < 64"

text \<open>The buffer after the first \<open>k\<close> iterations of the loop, read at position \<open>j\<close>.\<close>

definition partial_swizzle :: "byte list \<Rightarrow> nat \<Rightarrow> nat \<Rightarrow> byte" where
  "partial_swizzle p k j =
     (if upper_bank j \<and> j < k then p ! (j - 32)
      else if lower_bank j \<and> j + 32 < k then p ! (j + 32)
      else p ! j)"

section \<open>dol\_png.py: the fixed-header image construction\<close>


text \<open>
  \<^verbatim>\<open>
  palette = [tuple(palette_raw[i:i + 3]) for i in range(0, 1024, 4)]
  pixel_data = self.data[offset + 1024:offset + 1024 + width * height]
  pixels = [palette[i % len(palette)] for i in pixel_data]
  \<close>
  A palette entry is the tuple of the bytes the slice holds: three of them, or fewer
  where \<open>palette_raw\<close> is shorter than 1024 bytes.
\<close>

definition build_palette :: "byte list \<Rightarrow> byte list list" where
  "build_palette palette_raw =
     map (\<lambda>i. slice palette_raw i (i + 3)) (map (\<lambda>k. k * 4) [0..<256])"

definition lookup_pixels :: "byte list list \<Rightarrow> byte list \<Rightarrow> byte list list" where
  "lookup_pixels palette pixel_data =
     map (\<lambda>i. palette ! (unat i mod length palette)) pixel_data"








section \<open>PS2-HLTE.py: the marker scan\<close>

text \<open>
  \<open>bytes.find(sub, start)\<close>: the lowest index at or after \<open>start\<close> where \<open>sub\<close>
  occurs, \<open>None\<close> for Python's \<open>-1\<close>.
\<close>

fun find_in :: "byte list \<Rightarrow> byte list \<Rightarrow> nat \<Rightarrow> nat option" where
  "find_in sub [] i = (if sub = [] then Some i else None)"
| "find_in sub (x # xs) i =
     (if take (length sub) (x # xs) = sub then Some i else find_in sub xs (Suc i))"

definition bytes_find :: "byte list \<Rightarrow> byte list \<Rightarrow> nat \<Rightarrow> nat option" where
  "bytes_find data sub start =
     (if length data < start then None else find_in sub (drop start data) start)"

definition psx_marker :: "byte list" where
  "psx_marker = [0x70, 0x73, 0x78, 0x5F]"

definition gman_marker :: "byte list" where
  "gman_marker = [0x67, 0x6D, 0x61, 0x6E]"

definition data_sentinel :: "byte list" where
  "data_sentinel = [0xFF, 0xFF, 0xFF, 0x80]"

text \<open>
  \<^verbatim>\<open>
  name_start = data.find(b'\x70\x73\x78\x5F', start)
  if name_start != -1:
      name_start = data.find(b'\x67\x6D\x61\x6E', start)
  \<close>
\<close>

definition find_name_start :: "byte list \<Rightarrow> nat \<Rightarrow> nat option" where
  "find_name_start data start =
     (case bytes_find data psx_marker start of
        None \<Rightarrow> None
      | Some _ \<Rightarrow> bytes_find data gman_marker start)"

text \<open>
  \<^verbatim>\<open>
  while name_end + 3 < len(data) and data[name_end:name_end + 3] != b'\x00\x00\x00':
      name_end += 1
  \<close>
\<close>

function name_end_scan :: "byte list \<Rightarrow> nat \<Rightarrow> nat" where
  "name_end_scan data name_end =
     (if name_end + 3 < length data \<and> slice data name_end (name_end + 3) \<noteq> [0, 0, 0]
      then name_end_scan data (name_end + 1)
      else name_end)"
  by pat_completeness auto
termination
  by (relation "measure (\<lambda>(data, name_end). length data - name_end)") auto

declare name_end_scan.simps [simp del]

text \<open>
  \<open>decode('ascii', errors='ignore')\<close> drops every byte above 0x7F;
  \<open>sanitize_filename\<close> replaces each NUL character by an underscore.
\<close>

definition decode_ascii_ignore :: "byte list \<Rightarrow> string" where
  "decode_ascii_ignore bs = map (\<lambda>b. char_of (unat b)) (filter (\<lambda>b. b < 0x80) bs)"

definition sanitize_filename :: "string \<Rightarrow> string" where
  "sanitize_filename filename = map (\<lambda>c. if c = CHR 0x00 then CHR ''_'' else c) filename"

definition endswith :: "string \<Rightarrow> string \<Rightarrow> bool" where
  "endswith s suffix \<longleftrightarrow>
     length suffix \<le> length s \<and> drop (length s - length suffix) s = suffix"

definition texture_name_at :: "byte list \<Rightarrow> nat \<Rightarrow> string" where
  "texture_name_at data name_start =
     sanitize_filename
       (decode_ascii_ignore (slice data name_start (name_end_scan data (name_start + 4))))"

text \<open>
  \<^verbatim>\<open>
  for i in range(num_colors):
      start = i * 4
      color = texture_data[start:start+4]
      r, g, b, a = color
      palette.append((r, g, b))
  \<close>
  The unpacking raises \<open>ValueError\<close> unless the slice holds four bytes.
\<close>

type_synonym rgb = "byte \<times> byte \<times> byte"

fun extract_palette_loop ::
  "byte list \<Rightarrow> nat list \<Rightarrow> rgb list \<Rightarrow> py_error + rgb list" where
  "extract_palette_loop texture_data [] palette = Inr palette"
| "extract_palette_loop texture_data (i # rest) palette =
     (case slice texture_data (i * 4) (i * 4 + 4) of
        [r, g, b, a] \<Rightarrow> extract_palette_loop texture_data rest (palette @ [(r, g, b)])
      | _ \<Rightarrow> Inl ValueError)"

definition extract_palette :: "byte list \<Rightarrow> nat \<Rightarrow> py_error + rgb list" where
  "extract_palette texture_data num_colors =
     extract_palette_loop texture_data [0..<num_colors] []"

text \<open>
  \<^verbatim>\<open>
  indices = np.zeros((height, width), dtype=np.uint8)
  for y in range(height):
      for x in range(width):
          pixel_idx = texture_data[y * width + x]
          indices[y, x] = pixel_idx
  return indices
  \<close>
  Reading \<open>texture_data\<close> past its end raises \<open>IndexError\<close>; the stores are always
  inside the array. The \<open>palette\<close> argument is not used.
\<close>

type_synonym grid = "byte list list"

fun row_loop ::
  "byte list \<Rightarrow> nat \<Rightarrow> nat \<Rightarrow> nat list \<Rightarrow> grid \<Rightarrow> py_error + grid" where
  "row_loop texture_data width y [] indices = Inr indices"
| "row_loop texture_data width y (x # xs) indices =
     (if y * width + x < length texture_data
      then row_loop texture_data width y xs
             (indices[y := (indices ! y)[x := texture_data ! (y * width + x)]])
      else Inl IndexError)"

fun rows_loop :: "byte list \<Rightarrow> nat \<Rightarrow> nat list \<Rightarrow> grid \<Rightarrow> py_error + grid" where
  "rows_loop texture_data width [] indices = Inr indices"
| "rows_loop texture_data width (y # ys) indices =
     (case row_loop texture_data width y [0..<width] indices of
        Inl e \<Rightarrow> Inl e
      | Inr indices' \<Rightarrow> rows_loop texture_data width ys indices')"

definition extract_texture_indices ::
  "byte list \<Rightarrow> rgb list \<Rightarrow> nat \<Rightarrow> nat \<Rightarrow> py_error + grid" where
  "extract_texture_indices texture_data palette width height =
     rows_loop texture_data width [0..<height] (replicate height (replicate width 0))"

text \<open>\<open>int.from_bytes(bs, byteorder='little')\<close>.\<close>

fun int_from_bytes_little :: "byte list \<Rightarrow> nat" where
  "int_from_bytes_little [] = 0"
| "int_from_bytes_little (b # bs) = unat b + 256 * int_from_bytes_little bs"

text \<open>
  The indexed image that is saved: the file name, the array shape, the index array and
  the list given to \<open>putpalette\<close>. The scan's state is the list of images saved so far
  and \<open>texture_count\<close>.
\<close>

record indexed_image =
  file_name :: string
  img_width :: nat
  img_height :: nat
  img_indices :: grid
  img_palette :: "byte list"

record scan_state =
  saved :: "indexed_image list"
  texture_count :: nat

text \<open>
  \<^verbatim>\<open>
  size_data = data[size_pattern_start:size_pattern_start + 4]
  width = int.from_bytes(size_data[:2], byteorder='little')
  height = int.from_bytes(size_data[2:], byteorder='little')
  \<close>
  with \<open>size_pattern_start = texture_start - 4\<close>, evaluated only when that is not negative.
\<close>

definition size_pattern :: "byte list \<Rightarrow> nat \<Rightarrow> nat \<times> nat" where
  "size_pattern data texture_start =
     (let size_pattern_start = texture_start - 4;
          size_data = slice data size_pattern_start (size_pattern_start + 4);
          width = int_from_bytes_little (take 2 size_data);
          height = int_from_bytes_little (drop 2 size_data)
      in (width, height))"

text \<open>
  Lines 109 to 147 of the loop body, from the located sentinel on. An exception of
  \<open>extract_palette\<close> or \<open>extract_texture_indices\<close> is not caught anywhere.
\<close>

definition process_texture ::
  "byte list \<Rightarrow> string \<Rightarrow> nat \<Rightarrow> scan_state \<Rightarrow> py_error + scan_state" where
  "process_texture data texture_name texture_start st =
     (let next_texture_start = bytes_find data psx_marker (texture_start + 4);
          texture_end = (case next_texture_start of Some n \<Rightarrow> n | None \<Rightarrow> length data);
          texture_data = slice data texture_start texture_end
      in if 4 \<le> texture_start then
           (let (width, height) = size_pattern data texture_start;
                num_colors = 256
            in case extract_palette texture_data num_colors of
                 Inl e \<Rightarrow> Inl e
               | Inr palette \<Rightarrow>
                   (case extract_texture_indices (drop (num_colors * 4) texture_data)
                           palette width height of
                      Inl e \<Rightarrow> Inl e
                    | Inr indices \<Rightarrow>
                        Inr \<lparr>saved = saved st @
                               [\<lparr>file_name = texture_name @ ''.bmp'',
                                 img_width = width, img_height = height,
                                 img_indices = indices,
                                 img_palette = concat (map (\<lambda>(r, g, b). [r, g, b]) palette)\<rparr>],
                             texture_count = texture_count st + 1\<rparr>))
         else Inr st)"

lemma find_in_ge: "find_in sub xs i = Some k \<Longrightarrow> i \<le> k"
proof (induction xs arbitrary: i)
  case Nil
  then show ?case by (simp split: if_splits)
next
  case (Cons x xs)
  show ?case
  proof (cases "take (length sub) (x # xs) = sub")
    case True
    with Cons.prems show ?thesis by simp
  next
    case False
    with Cons.prems have "find_in sub xs (Suc i) = Some k" by simp
    from Cons.IH[OF this] show ?thesis by simp
  qed
qed

lemma bytes_find_ge: "bytes_find data sub start = Some k \<Longrightarrow> start \<le> k"
  by (auto simp: bytes_find_def split: if_splits dest: find_in_ge)

lemma find_name_start_ge: "find_name_start data start = Some k \<Longrightarrow> start \<le> k"
  by (auto simp: find_name_start_def split: option.splits dest: bytes_find_ge)

lemma name_end_scan_ge: "name_end \<le> name_end_scan data name_end"
proof (induction data name_end rule: name_end_scan.induct)
  case (1 data name_end)
  show ?case
  proof (cases "name_end + 3 < length data \<and> slice data name_end (name_end + 3) \<noteq> [0, 0, 0]")
    case True
    with 1 have "name_end + 1 \<le> name_end_scan data (name_end + 1)" by simp
    moreover from True have "name_end_scan data name_end = name_end_scan data (name_end + 1)"
      by (subst name_end_scan.simps) simp
    ultimately show ?thesis by simp
  next
    case False
    then have "name_end_scan data name_end = name_end"
      by (subst name_end_scan.simps) auto
    then show ?thesis by simp
  qed
qed

text \<open>
  The scan loop of \<open>extract_textures\<close> (lines 63 to 147). The result is the state when
  the loop ends and the exception that ended it, if one did. Each iteration that does
  not leave the loop continues from \<open>name_end\<close>, which lies beyond \<open>start\<close>.
\<close>

function scan_loop :: "byte list \<Rightarrow> nat \<Rightarrow> scan_state \<Rightarrow> scan_state \<times> py_error option" where
  "scan_loop data start st =
     (if start < length data then
        (case find_name_start data start of
           None \<Rightarrow> (st, None)
         | Some name_start \<Rightarrow>
             (let name_end = name_end_scan data (name_start + 4);
                  texture_name = texture_name_at data name_start
              in if endswith texture_name ''.BMP'' then scan_loop data name_end st
                 else
                   (case bytes_find data data_sentinel name_end of
                      None \<Rightarrow> (st, None)
                    | Some texture_start \<Rightarrow>
                        (case process_texture data texture_name texture_start st of
                           Inl e \<Rightarrow> (st, Some e)
                         | Inr st' \<Rightarrow> scan_loop data name_end st'))))
      else (st, None))"
  by pat_completeness auto
termination
proof (relation "measure (\<lambda>(data, start, st). length data - start)")
  show "wf (measure (\<lambda>(data, start, st). length data - start))" by simp
next
  fix data :: "byte list" and start :: nat and st :: scan_state and name_start name_end
  assume "start < length data" "find_name_start data start = Some name_start"
    "name_end = name_end_scan data (name_start + 4)"
  then have "start < name_end"
    using find_name_start_ge[of data start name_start] name_end_scan_ge[of "name_start + 4" data]
    by simp
  then show "((data, name_end, st), (data, start, st)) \<in> measure (\<lambda>(data, start, st). length data - start)"
    using \<open>start < length data\<close> by simp
next
  fix data :: "byte list" and start :: nat and st st' :: scan_state and name_start name_end
  assume "start < length data" "find_name_start data start = Some name_start"
    "name_end = name_end_scan data (name_start + 4)"
  then have "start < name_end"
    using find_name_start_ge[of data start name_start] name_end_scan_ge[of "name_start + 4" data]
    by simp
  then show "((data, name_end, st'), (data, start, st)) \<in> measure (\<lambda>(data, start, st). length data - start)"
    using \<open>start < length data\<close> by simp
qed


declare scan_loop.simps [simp del]

definition extract_textures :: "byte list \<Rightarrow> scan_state \<times> py_error option" where
  "extract_textures data = scan_loop data 0 \<lparr>saved = [], texture_count = 0\<rparr>"

section \<open>Concrete inputs\<close>







text \<open>
  A texture block as the marker scan expects it: the sentinel, which is also the first
  palette entry, 1020 more palette bytes and one pixel byte. \<open>second_record\<close> is a
  complete record of a 1 by 1 texture named \<open>gmanB\<close>; \<open>first_record\<close> breaks off
  right after its sentinel; \<open>psx_record\<close> is a complete record whose name starts with
  the \<open>psx_\<close> prefix alone. \<open>unreadable_tex\<close> is a texture entry with no palette bytes.
\<close>

definition texture_block :: "byte list" where
  "texture_block = data_sentinel @ replicate 1020 0 @ [7]"




definition psx_record :: "byte list" where
  "psx_record = psx_marker @ [0x42, 0, 0, 0, 1, 0, 1, 0] @ texture_block"




section \<open>The palette reformat is a self-inverse permutation\<close>

lemma swap_step_length: "length (swap_step s p i) = length p"
  by (simp add: swap_step_def Let_def)

lemma foldl_swap_length: "length (foldl (swap_step s) p xs) = length p"
  by (induction xs arbitrary: p) (auto simp: swap_step_length)

lemma mod128_add32:
  fixes j :: nat
  assumes "j mod 128 < 96"
  shows "(j + 32) mod 128 = j mod 128 + 32"
proof -
  have "(j + 32) mod 128 = (j mod 128 + 32) mod 128"
    by (simp add: mod_add_left_eq)
  also have "\<dots> = j mod 128 + 32"
    using assms by (intro mod_less) simp
  finally show ?thesis .
qed

lemma mod128_sub32:
  fixes j :: nat
  assumes "32 \<le> j mod 128"
  shows "(j - 32) mod 128 = j mod 128 - 32" and "32 \<le> j"
proof -
  define r where "r = j mod 128"
  define q where "q = j div 128"
  have j: "j = q * 128 + r" and r: "r < 128" "32 \<le> r"
    using assms by (simp_all add: r_def q_def)
  have "j - 32 = q * 128 + (r - 32)" using j r by simp
  then have "(j - 32) mod 128 = (r - 32) mod 128" by simp
  also have "\<dots> = r - 32" using r by (intro mod_less) simp
  finally show "(j - 32) mod 128 = j mod 128 - 32" by (simp add: r_def)
  show "32 \<le> j" using j r by simp
qed

lemma banks_disjoint: "upper_bank j \<Longrightarrow> \<not> lower_bank j"
  by (simp add: upper_bank_def lower_bank_def)

lemma upper_bank_partner: 
  assumes "upper_bank j" shows "lower_bank (j - 32)" and "32 \<le> j"
proof -
  define r where "r = j mod 128"
  have r: "64 \<le> r" "r < 96" using assms by (simp_all add: upper_bank_def r_def)
  then have "32 \<le> j mod 128" by (simp add: r_def)
  from mod128_sub32[OF this] have m: "(j - 32) mod 128 = r - 32" and "32 \<le> j"
    by (simp_all add: r_def)
  then show "32 \<le> j" by simp
  have "32 \<le> r - 32" "r - 32 < 64" using r by simp_all
  then show "lower_bank (j - 32)" by (simp add: lower_bank_def m)
qed

lemma lower_bank_partner:
  assumes "lower_bank j" shows "upper_bank (j + 32)"
proof -
  have "j mod 128 < 96" using assms by (simp add: lower_bank_def)
  from mod128_add32[OF this] assms show ?thesis
    by (simp add: upper_bank_def lower_bank_def)
qed

lemma swap_step_4:
  "swap_step 4 p i = (if upper_bank i then p[i := p ! (i - 32), i - 32 := p ! i] else p)"
  by (simp add: swap_step_def upper_bank_def Let_def)

lemma partial_swizzle_step:
  assumes k: "k < length p" and len: "length q = length p"
    and inv: "\<And>j. j < length p \<Longrightarrow> q ! j = partial_swizzle p k j"
    and j: "j < length p"
  shows "swap_step 4 q k ! j = partial_swizzle p (Suc k) j"
proof (cases "upper_bank k")
  case False
  have "partial_swizzle p (Suc k) j = partial_swizzle p k j"
  proof -
    have a: "j < Suc k \<longleftrightarrow> j < k" if "upper_bank j"
      using that False by (cases "j = k") auto
    have b: "j + 32 < Suc k \<longleftrightarrow> j + 32 < k" if "lower_bank j"
      using lower_bank_partner[OF that] False by (cases "j + 32 = k") auto
    show ?thesis unfolding partial_swizzle_def using a b by auto
  qed
  with False inv[OF j] show ?thesis by (simp add: swap_step_4)
next
  case True
  note lo = upper_bank_partner[OF True]
  have nl: "\<not> lower_bank k" and nu: "\<not> upper_bank (k - 32)"
    using True lo banks_disjoint by auto
  have qk: "q ! k = p ! k"
    using inv[OF k] nl by (simp add: partial_swizzle_def)
  have k32: "k - 32 < length p" using k by simp
  have qk32: "q ! (k - 32) = p ! (k - 32)"
    using inv[OF k32] nu lo by (simp add: partial_swizzle_def)
  have step: "swap_step 4 q k = q[k := p ! (k - 32), k - 32 := p ! k]"
    using True qk qk32 by (simp add: swap_step_4)
  consider "j = k" | "j = k - 32" | "j \<noteq> k" "j \<noteq> k - 32" by blast
  then show ?thesis
  proof cases
    case 1
    have "k \<noteq> k - 32" using lo by simp
    then have "swap_step 4 q k ! j = p ! (k - 32)"
      using 1 k len by (simp add: step)
    moreover have "partial_swizzle p (Suc k) j = p ! (k - 32)"
      using 1 True by (simp add: partial_swizzle_def)
    ultimately show ?thesis by simp
  next
    case 2
    have "swap_step 4 q k ! j = p ! k"
      using 2 k len by (simp add: step)
    moreover have "partial_swizzle p (Suc k) j = p ! k"
      using 2 nu lo by (simp add: partial_swizzle_def)
    ultimately show ?thesis by simp
  next
    case 3
    have "swap_step 4 q k ! j = q ! j"
      using 3 by (simp add: step)
    moreover have "partial_swizzle p (Suc k) j = partial_swizzle p k j"
    proof -
      have a: "j < Suc k \<longleftrightarrow> j < k" using 3 by auto
      have b: "j + 32 < Suc k \<longleftrightarrow> j + 32 < k" using 3 lo by auto
      show ?thesis unfolding partial_swizzle_def using a b by simp
    qed
    ultimately show ?thesis using inv[OF j] by simp
  qed
qed

lemma foldl_swap_partial:
  "k \<le> length p \<Longrightarrow> j < length p \<Longrightarrow>
     foldl (swap_step 4) p [0..<k] ! j = partial_swizzle p k j"
proof (induction k arbitrary: j)
  case 0
  then show ?case by (simp add: partial_swizzle_def)
next
  case (Suc k)
  have "swap_step 4 (foldl (swap_step 4) p [0..<k]) k ! j = partial_swizzle p (Suc k) j"
  proof (rule partial_swizzle_step)
    show "k < length p" using Suc.prems by simp
    show "length (foldl (swap_step 4) p [0..<k]) = length p" by (rule foldl_swap_length)
    show "j < length p" by (rule Suc.prems)
    show "\<And>j. j < length p \<Longrightarrow> foldl (swap_step 4) p [0..<k] ! j = partial_swizzle p k j"
      using Suc.IH Suc.prems by simp
  qed
  then show ?case by simp
qed

lemma partial_swizzle_full:
  assumes "j < length p"
  shows "partial_swizzle p (length p) j = p ! swizzle_source (length p) j"
  using assms
  by (simp add: partial_swizzle_def swizzle_source_def upper_bank_def lower_bank_def)

lemma reformat_is_spec: "ps2_palette_reformat p = swizzle_spec p"
proof (rule nth_equalityI)
  show "length (ps2_palette_reformat p) = length (swizzle_spec p)"
    by (simp add: ps2_palette_reformat_def ps2_palette_reformat_s_def swizzle_spec_def
        foldl_swap_length)
next
  fix j assume "j < length (ps2_palette_reformat p)"
  then have j: "j < length p"
    by (simp add: ps2_palette_reformat_def ps2_palette_reformat_s_def foldl_swap_length)
  then show "ps2_palette_reformat p ! j = swizzle_spec p ! j"
    by (simp add: ps2_palette_reformat_def ps2_palette_reformat_s_def swizzle_spec_def
        foldl_swap_partial partial_swizzle_full)
qed


lemma swizzle_source_banks:
  "swizzle_source n j =
     (if upper_bank j then j - 32 else if lower_bank j \<and> j + 32 < n then j + 32 else j)"
  by (simp add: swizzle_source_def upper_bank_def lower_bank_def)

lemma swizzle_source_less: "j < n \<Longrightarrow> swizzle_source n j < n"
  by (auto simp: swizzle_source_banks)

lemma swizzle_source_involution:
  assumes "j < n"
  shows "swizzle_source n (swizzle_source n j) = j"
proof (cases "upper_bank j")
  case True
  note lo = upper_bank_partner[OF True]
  have "\<not> upper_bank (j - 32)" using lo banks_disjoint by auto
  then show ?thesis using True lo assms by (simp add: swizzle_source_banks)
next
  case False
  show ?thesis
  proof (cases "lower_bank j \<and> j + 32 < n")
    case True
    then have "upper_bank (j + 32)" by (simp add: lower_bank_partner)
    then show ?thesis using True False by (simp add: swizzle_source_banks)
  next
    case False
    with \<open>\<not> upper_bank j\<close> show ?thesis by (auto simp: swizzle_source_banks)
  qed
qed

lemma swizzle_spec_involution: "swizzle_spec (swizzle_spec p) = p"
proof (rule nth_equalityI)
  show "length (swizzle_spec (swizzle_spec p)) = length p"
    by (simp add: swizzle_spec_def)
next
  fix j assume "j < length (swizzle_spec (swizzle_spec p))"
  then have j: "j < length p" by (simp add: swizzle_spec_def)
  have "swizzle_spec (swizzle_spec p) ! j
          = swizzle_spec p ! swizzle_source (length p) j"
    using j by (simp add: swizzle_spec_def)
  also have "\<dots> = p ! swizzle_source (length p) (swizzle_source (length p) j)"
    using swizzle_source_less[OF j] by (simp add: swizzle_spec_def)
  also have "\<dots> = p ! j"
    by (simp add: swizzle_source_involution[OF j])
  finally show "swizzle_spec (swizzle_spec p) ! j = p ! j" .
qed

text \<open>
  C1. The palette reformat of \<open>dol_png.py\<close> is the declarative permutation
  \<open>swizzle_spec\<close>: in every 128-byte block the bytes at block offsets 64..95 are
  exchanged with the bytes 32 positions earlier and every other byte stays where it
  is; applying the reformat twice gives back the input, for every byte string.
\<close>

theorem ps2_palette_reformat_swizzle:
  "ps2_palette_reformat pal = swizzle_spec pal \<and>
   ps2_palette_reformat (ps2_palette_reformat pal) = pal"
  by (simp add: reformat_is_spec swizzle_spec_involution)

section \<open>Pixel index extraction\<close>

lemma foldl_update_upt:
  "k \<le> length r \<Longrightarrow>
     length (foldl (\<lambda>r x. r[x := f x]) r [0..<k]) = length r \<and>
     (\<forall>j<length r. foldl (\<lambda>r x. r[x := f x]) r [0..<k] ! j = (if j < k then f j else r ! j))"
proof (induction k)
  case 0
  then show ?case by simp
next
  case (Suc k)
  then have IH: "length (foldl (\<lambda>r x. r[x := f x]) r [0..<k]) = length r"
    "\<And>j. j < length r \<Longrightarrow>
       foldl (\<lambda>r x. r[x := f x]) r [0..<k] ! j = (if j < k then f j else r ! j)"
    by simp_all
  show ?case
    using IH Suc.prems by (auto simp: nth_list_update less_Suc_eq)
qed

lemma foldl_update_all:
  assumes "length r = n"
  shows "foldl (\<lambda>r x. r[x := f x]) r [0..<n] = map f [0..<n]"
proof (rule nth_equalityI)
  from foldl_update_upt[of n r f] assms
  show "length (foldl (\<lambda>r x. r[x := f x]) r [0..<n]) = length (map f [0..<n])" by simp
next
  fix j assume "j < length (foldl (\<lambda>r x. r[x := f x]) r [0..<n])"
  with foldl_update_upt[of n r f] assms have "j < n" by simp
  with foldl_update_upt[of n r f] assms
  show "foldl (\<lambda>r x. r[x := f x]) r [0..<n] ! j = map f [0..<n] ! j" by simp
qed

lemma row_loop_Inr:
  "\<forall>x\<in>set xs. y * width + x < length td \<Longrightarrow>
     row_loop td width y xs g =
       Inr (foldl (\<lambda>g x. g[y := (g ! y)[x := td ! (y * width + x)]]) g xs)"
  by (induction xs arbitrary: g) simp_all

lemma foldl_row_store:
  "y < length g \<Longrightarrow>
     foldl (\<lambda>g x. g[y := (g ! y)[x := f x]]) g xs =
       g[y := foldl (\<lambda>r x. r[x := f x]) (g ! y) xs]"
proof (induction xs arbitrary: g)
  case Nil
  then show ?case by simp
next
  case (Cons x xs)
  have "foldl (\<lambda>g x. g[y := (g ! y)[x := f x]]) (g[y := (g ! y)[x := f x]]) xs =
          (g[y := (g ! y)[x := f x]])
            [y := foldl (\<lambda>r x. r[x := f x]) ((g[y := (g ! y)[x := f x]]) ! y) xs]"
    using Cons.prems by (intro Cons.IH) simp
  then show ?case using Cons.prems by simp
qed

lemma row_loop_full:
  assumes "\<forall>x<width. y * width + x < length td" "y < length g" "length (g ! y) = width"
  shows "row_loop td width y [0..<width] g =
           Inr (g[y := map (\<lambda>x. td ! (y * width + x)) [0..<width]])"
proof -
  have "row_loop td width y [0..<width] g =
          Inr (foldl (\<lambda>g x. g[y := (g ! y)[x := td ! (y * width + x)]]) g [0..<width])"
    using assms(1) by (intro row_loop_Inr) simp
  also have "foldl (\<lambda>g x. g[y := (g ! y)[x := td ! (y * width + x)]]) g [0..<width] =
          g[y := foldl (\<lambda>r x. r[x := td ! (y * width + x)]) (g ! y) [0..<width]]"
    using assms(2) by (rule foldl_row_store)
  also have "foldl (\<lambda>r x. r[x := td ! (y * width + x)]) (g ! y) [0..<width] =
          map (\<lambda>x. td ! (y * width + x)) [0..<width]"
    using assms(3) by (rule foldl_update_all)
  finally show ?thesis .
qed

lemma rows_loop_Inr:
  "\<forall>y\<in>set ys. y < length g \<and> (\<forall>x<width. y * width + x < length td) \<Longrightarrow>
   \<forall>row\<in>set g. length row = width \<Longrightarrow>
     rows_loop td width ys g =
       Inr (foldl (\<lambda>g y. g[y := map (\<lambda>x. td ! (y * width + x)) [0..<width]]) g ys)"
proof (induction ys arbitrary: g)
  case Nil
  then show ?case by simp
next
  case (Cons y ys)
  let ?g' = "g[y := map (\<lambda>x. td ! (y * width + x)) [0..<width]]"
  have y: "y < length g" "\<forall>x<width. y * width + x < length td"
    using Cons.prems(1) by simp_all
  have "length (g ! y) = width" using Cons.prems(2) y(1) by simp
  then have row: "row_loop td width y [0..<width] g = Inr ?g'"
    using y by (intro row_loop_full) simp_all
  have rows: "\<forall>row\<in>set ?g'. length row = width"
    using Cons.prems(2) by (auto dest!: subsetD[OF set_update_subset_insert])
  have "rows_loop td width ys ?g' =
          Inr (foldl (\<lambda>g y. g[y := map (\<lambda>x. td ! (y * width + x)) [0..<width]]) ?g' ys)"
    using Cons.prems(1) rows by (intro Cons.IH) simp_all
  then show ?case using row by simp
qed

lemma pixel_offset_in_range:
  fixes width height :: nat
  assumes "width * height \<le> n" "y < height" "x < width"
  shows "y * width + x < n"
proof -
  have "y * width + x < y * width + width" using assms(3) by simp
  also have "\<dots> = Suc y * width" by simp
  also have "\<dots> \<le> height * width" using assms(2) by (intro mult_le_mono1) simp
  also have "\<dots> \<le> n" using assms(1) by (simp add: mult.commute)
  finally show ?thesis .
qed

lemma extract_texture_indices_grid:
  assumes "width * height \<le> length texture_data"
  shows "extract_texture_indices texture_data palette width height =
           Inr (map (\<lambda>y. map (\<lambda>x. texture_data ! (y * width + x)) [0..<width]) [0..<height])"
proof -
  let ?g = "replicate height (replicate width (0::byte))"
  have "rows_loop texture_data width [0..<height] ?g =
          Inr (foldl (\<lambda>g y. g[y := map (\<lambda>x. texture_data ! (y * width + x)) [0..<width]])
                 ?g [0..<height])"
    using pixel_offset_in_range[OF assms] by (intro rows_loop_Inr) simp_all
  moreover have "foldl (\<lambda>g y. g[y := map (\<lambda>x. texture_data ! (y * width + x)) [0..<width]])
                   ?g [0..<height] =
                 map (\<lambda>y. map (\<lambda>x. texture_data ! (y * width + x)) [0..<width]) [0..<height]"
    by (rule foldl_update_all) simp
  ultimately show ?thesis by (simp add: extract_texture_indices_def)
qed






text \<open>
  C4. When \<open>texture_data\<close> holds at least \<open>width * height\<close> bytes,
  \<open>extract_texture_indices\<close> returns the grid of \<open>height\<close> rows and \<open>width\<close>
  columns whose cell \<open>(y, x)\<close> is byte \<open>y * width + x\<close>, taken as it is; nothing
  beyond the first \<open>width * height\<close> bytes is read. On \<open>[0, 1, 2, 3]\<close> with width 2
  and height 2 the grid is \<open>[[0, 1], [2, 3]]\<close>.
\<close>

theorem extract_texture_indices_row_major:
  assumes "width * height \<le> length texture_data"
  shows "extract_texture_indices texture_data palette width height =
           Inr (map (\<lambda>y. map (\<lambda>x. texture_data ! (y * width + x)) [0..<width]) [0..<height])
         \<and> extract_texture_indices (take (width * height) texture_data) palette width height =
             extract_texture_indices texture_data palette width height"
proof -
  have "extract_texture_indices (take (width * height) texture_data) palette width height =
          Inr (map (\<lambda>y. map (\<lambda>x. take (width * height) texture_data ! (y * width + x))
                 [0..<width]) [0..<height])"
    using assms by (intro extract_texture_indices_grid) simp
  also have "(map (\<lambda>y. map (\<lambda>x. take (width * height) texture_data ! (y * width + x))
                 [0..<width]) [0..<height]) =
             map (\<lambda>y. map (\<lambda>x. texture_data ! (y * width + x)) [0..<width]) [0..<height]"
    using pixel_offset_in_range[of width height "width * height"] by simp
  finally show ?thesis using extract_texture_indices_grid[OF assms] by simp
qed

theorem extract_texture_indices_2x2:
  "2 * 2 \<le> length [0, 1, 2, 3 :: byte] \<and>
   extract_texture_indices [0, 1, 2, 3] [] 2 2 = Inr [[0, 1], [2, 3]]"
  using extract_texture_indices_row_major[of 2 2 "[0, 1, 2, 3]" "[]"]
  by (simp add: numeral_2_eq_2)

section \<open>The fixed-header palette and its lookup\<close>

lemma length_build_palette: "length (build_palette palette_raw) = 256"
  by (simp add: build_palette_def)


lemma unat_byte_less: "unat (i :: byte) < 256"
  using unsigned_less[of i, where ?'a = nat] by simp

lemma lookup_pixels_direct:
  "lookup_pixels (build_palette palette_raw) pixel_data =
     map (\<lambda>i. build_palette palette_raw ! unat i) pixel_data"
  by (simp add: lookup_pixels_def length_build_palette unat_byte_less)

lemma length_lookup_pixels: "length (lookup_pixels palette pixel_data) = length pixel_data"
  by (simp add: lookup_pixels_def)




text \<open>
  C10. In \<open>get_texture_image\<close> the palette always has 256 entries and a pixel byte is
  below 256, so \<open>palette[i % len(palette)]\<close> is defined, is the same as \<open>palette[i]\<close>
  for every pixel, and no index is out of range.
\<close>

theorem palette_lookup_total:
  fixes i :: byte
  shows "length (build_palette palette_raw) = 256 \<and>
         unat i < length (build_palette palette_raw) \<and>
         unat i mod length (build_palette palette_raw) = unat i \<and>
         lookup_pixels (build_palette palette_raw) pixel_data =
           map (\<lambda>i. build_palette palette_raw ! unat i) pixel_data"
  by (simp add: length_build_palette unat_byte_less lookup_pixels_direct)





section \<open>Truncated pixel data\<close>







section \<open>Searching and slicing\<close>





lemma find_in_None:
  "sub \<noteq> [] \<Longrightarrow> hd sub \<notin> set xs \<Longrightarrow> find_in sub xs i = None"
proof (induction xs arbitrary: i)
  case Nil
  then show ?case by simp
next
  case (Cons x xs)
  have "take (length sub) (x # xs) \<noteq> sub"
  proof
    assume "take (length sub) (x # xs) = sub"
    then have "hd (take (length sub) (x # xs)) = hd sub" by simp
    moreover have "0 < length sub" using Cons.prems(1) by simp
    ultimately have "x = hd sub" by (cases "length sub") simp_all
    with Cons.prems(2) show False by simp
  qed
  moreover have "find_in sub xs (Suc i) = None"
    using Cons.prems by (intro Cons.IH) simp_all
  ultimately show ?case by simp
qed

lemma bytes_find_None:
  "sub \<noteq> [] \<Longrightarrow> hd sub \<notin> set (drop start data) \<Longrightarrow> bytes_find data sub start = None"
  by (simp add: bytes_find_def find_in_None)



lemma name_end_scan_here:
  "\<not> (k + 3 < length data \<and> slice data k (k + 3) \<noteq> [0, 0, 0]) \<Longrightarrow> name_end_scan data k = k"
  by (subst name_end_scan.simps) auto

lemma name_end_scan_next:
  "k + 3 < length data \<Longrightarrow> slice data k (k + 3) \<noteq> [0, 0, 0] \<Longrightarrow>
     name_end_scan data k = name_end_scan data (Suc k)"
  by (subst name_end_scan.simps) simp

section \<open>Palette extraction, size pattern and the steps of the scan\<close>










lemma scan_loop_no_name:
  "find_name_start data start = None \<Longrightarrow> scan_loop data start st = (st, None)"
  by (subst scan_loop.simps) simp


lemma scan_loop_no_sentinel:
  assumes "start < length data" "find_name_start data start = Some name_start"
    "\<not> endswith (texture_name_at data name_start) ''.BMP''"
    "bytes_find data data_sentinel (name_end_scan data (name_start + 4)) = None"
  shows "scan_loop data start st = (st, None)"
  using assms by (subst scan_loop.simps) (simp add: Let_def)






section \<open>The scan on concrete buffers\<close>























section \<open>The scan on whole records\<close>


lemma set_texture_block: "set texture_block = {0xFF, 0x80, 0, 7}"
  by (auto simp: texture_block_def data_sentinel_def)



































lemma psx_record_head:
  "psx_record = [0x70, 0x73, 0x78, 0x5F, 0x42, 0, 0, 0, 1, 0, 1, 0] @ texture_block"
  by (simp add: psx_record_def psx_marker_def)

text \<open>
  The scan of an empty buffer, or of a buffer without the \<open>psx_\<close> prefix, ends at once
  with nothing saved and no exception.
\<close>

lemma scan_empty_buffer:
  "extract_textures [] = (\<lparr>saved = [], texture_count = 0\<rparr>, None)"
  unfolding extract_textures_def by (subst scan_loop.simps) simp

lemma scan_without_prefix:
  assumes "bytes_find data psx_marker 0 = None"
  shows "extract_textures data = (\<lparr>saved = [], texture_count = 0\<rparr>, None)"
proof -
  from assms have "find_name_start data 0 = None" by (simp add: find_name_start_def)
  then show ?thesis by (simp add: extract_textures_def scan_loop_no_name)
qed

text \<open>
  C2. A buffer holding one complete record whose name starts with the \<open>psx_\<close> prefix
  and that contains no \<open>gman\<close>: the scan finds the prefix, searches again for \<open>gman\<close>,
  finds nothing and ends with no record discovered.
\<close>

theorem psx_marked_record_not_found:
  "extract_textures psx_record = (\<lparr>saved = [], texture_count = 0\<rparr>, None)"
proof -
  have "bytes_find psx_record gman_marker 0 = None"
    by (rule bytes_find_None)
      (auto simp: gman_marker_def psx_record_head set_texture_block)
  then have "find_name_start psx_record 0 = None"
    by (simp add: find_name_start_def split: option.splits)
  then show ?thesis by (simp add: extract_textures_def scan_loop_no_name)
qed

end
